theory Spec2Isabelle
  imports Main "HOL-Library.Sublist" "HOL-Library.Multiset"
begin

section \<open>The playlist checker of check.py\<close>

text \<open>
  The development follows \<^verbatim>\<open>src/check.py\<close>: the prober
  \<^verbatim>\<open>check_url_with_requests\<close>, the per-entry task \<^verbatim>\<open>process_stream\<close> and the
  driver \<^verbatim>\<open>check_streams\<close>. The network and the thread pool are not part of the
  program text, so both are parameters of the model: the network answers each call of
  \<^verbatim>\<open>requests.head\<close>, and the pool decides in which order the submitted futures
  are handed back to the loop.
\<close>

subsection \<open>Errors and the network\<close>

text \<open>
  One call of \<^verbatim>\<open>requests.head(url, timeout=timeout)\<close> either returns a response with
  a status code, or raises \<^verbatim>\<open>requests.RequestException\<close> (connection refused, timeout,
  DNS or TLS failure, ...), or raises an exception of another class. The strings are the
  texts of the exceptions.
\<close>

datatype outcome = Response int | RequestException string | OtherException string

datatype error = Propagated string | IndexError | ValueError

text \<open>
  What one call of the prober leaves behind: its return value (or the exception that
  escaped it), the number of calls of \<^verbatim>\<open>requests.head\<close> it made, and the lines it
  printed.
\<close>

record probe =
  verdict :: "error + bool"
  calls :: nat
  printed :: "string list"

subsection \<open>check\_url\_with\_requests\<close>

text \<open>
  \<^verbatim>\<open>
  def check_url_with_requests(url, timeout, retries=3):
      for attempt in range(retries):
          try:
              response = requests.head(url, timeout=timeout)
              if response.status_code == 200:
                  return True  # URL is live
          except requests.RequestException as e:
              if attempt < retries - 1:
                  continue  # Retry
              print(f"Error checking URL: {url} - {e}")
      return False  # URL is dead after retries
  \<close>
  The loop runs over the values of \<^verbatim>\<open>range(retries)\<close>; \<open>n\<close> counts the calls of
  \<^verbatim>\<open>requests.head\<close> made so far and \<open>out\<close> collects the printed lines. The argument
  \<open>head\<close> gives the outcome of the \<open>n\<close>-th call.
\<close>

fun retry_loop ::
  "(nat \<Rightarrow> outcome) \<Rightarrow> string \<Rightarrow> int \<Rightarrow> nat list \<Rightarrow> nat \<Rightarrow> string list \<Rightarrow> probe" where
  "retry_loop head url retries [] n out =
     \<lparr>verdict = Inr False, calls = n, printed = out\<rparr>"
| "retry_loop head url retries (attempt # rest) n out =
     (case head n of
        Response status_code \<Rightarrow>
          if status_code = 200
          then \<lparr>verdict = Inr True, calls = Suc n, printed = out\<rparr>
          else retry_loop head url retries rest (Suc n) out
      | RequestException e \<Rightarrow>
          if int attempt < retries - 1
          then retry_loop head url retries rest (Suc n) out
          else retry_loop head url retries rest (Suc n)
                 (out @ [''Error checking URL: '' @ url @ '' - '' @ e])
      | OtherException e \<Rightarrow>
          \<lparr>verdict = Inl (Propagated e), calls = Suc n, printed = out\<rparr>)"

text \<open>\<^verbatim>\<open>range(retries)\<close> is empty when \<^verbatim>\<open>retries\<close> is zero or negative.\<close>

definition range_py :: "int \<Rightarrow> nat list" where
  "range_py k = [0 ..< nat k]"

definition check_url_with_requests ::
  "(string \<Rightarrow> int \<Rightarrow> nat \<Rightarrow> outcome) \<Rightarrow> string \<Rightarrow> int \<Rightarrow> int \<Rightarrow> probe" where
  "check_url_with_requests head url timeout retries =
     retry_loop (head url timeout) url retries (range_py retries) 0 []"

subsection \<open>Strings and indexing\<close>

text \<open>
  Lines are strings over 8-bit characters. \<^verbatim>\<open>str.strip()\<close> removes leading and
  trailing whitespace; these are the characters below 256 for which Python's
  \<^verbatim>\<open>str.isspace\<close> holds.
\<close>

definition isspace :: "char \<Rightarrow> bool" where
  "isspace c \<longleftrightarrow> (of_char c :: nat) \<in> {9, 10, 11, 12, 13, 28, 29, 30, 31, 32, 133, 160}"

definition strip :: "string \<Rightarrow> string" where
  "strip s = rev (dropWhile isspace (rev (dropWhile isspace s)))"

definition startswith :: "string \<Rightarrow> string \<Rightarrow> bool" where
  "startswith s p \<longleftrightarrow> prefix p s"

text \<open>
  \<^verbatim>\<open>xs[i]\<close>: an index from \<open>0\<close> up to the length reads from the front, an index
  from \<open>-1\<close> down to minus the length reads from the end, any other index raises
  IndexError.
\<close>

definition getitem :: "'a list \<Rightarrow> int \<Rightarrow> error + 'a" where
  "getitem xs i =
     (if 0 \<le> i \<and> i < int (length xs) then Inr (xs ! nat i)
      else if i < 0 \<and> - int (length xs) \<le> i then Inr (xs ! nat (int (length xs) + i))
      else Inl IndexError)"

subsection \<open>process\_stream\<close>

text \<open>
  \<^verbatim>\<open>
  def process_stream(index, lines, timeout, verbose, retries):
      url = lines[index].strip()
      if check_url_with_requests(url, timeout, retries):
          if verbose:
              print(f"Live/Valid: {url}")
          return [lines[index - 1], lines[index]]  # Return the #EXTINF and URL lines
      else:
          if verbose:
              print(f"Dead/Invalid: {url}")
          return []
  \<close>
  The result is the returned list (or the exception that escaped) together with the
  lines printed by this task.
\<close>

definition process_stream ::
  "(string \<Rightarrow> int \<Rightarrow> nat \<Rightarrow> outcome) \<Rightarrow> nat \<Rightarrow> string list \<Rightarrow> int \<Rightarrow> bool \<Rightarrow> int
     \<Rightarrow> (error + string list) \<times> string list" where
  "process_stream head index lines timeout verbose retries =
     (case getitem lines (int index) of
        Inl e \<Rightarrow> (Inl e, [])
      | Inr line \<Rightarrow>
          let url = strip line;
              p = check_url_with_requests head url timeout retries
          in (case verdict p of
                Inl e \<Rightarrow> (Inl e, printed p)
              | Inr live \<Rightarrow>
                  if live
                  then let out = printed p @ (if verbose then [''Live/Valid: '' @ url] else [])
                       in (case getitem lines (int index - 1) of
                             Inl e \<Rightarrow> (Inl e, out)
                           | Inr extinf \<Rightarrow> (Inr [extinf, line], out))
                  else (Inr [], printed p @ (if verbose then [''Dead/Invalid: '' @ url] else []))))"

subsection \<open>check\_streams\<close>

text \<open>
  \<^verbatim>\<open>
  live_lines = []
  with ThreadPoolExecutor(max_workers=max_workers) as executor:
      futures = {
          executor.submit(process_stream, i, lines, timeout, verbose, retries): i
          for i, line in enumerate(lines)
          if line.startswith("http")  # Check only URLs
      }
      for future in tqdm(as_completed(futures), total=len(futures), desc="Processing URLs"):
          live_lines.extend(future.result())
  ...
      outfile.writelines(live_lines)
  \<close>
  A future is identified by the index \<open>i\<close> it was submitted for (the value the
  dictionary \<^verbatim>\<open>futures\<close> stores for it). \<open>submitted\<close> lists the futures in the order
  of submission.
\<close>

definition submitted :: "string list \<Rightarrow> nat list" where
  "submitted lines =
     map fst (filter (\<lambda>(i, line). startswith line ''http'') (enumerate 0 lines))"


text \<open>
  The state of the \<^verbatim>\<open>for\<close> loop: the list \<^verbatim>\<open>live_lines\<close> and the counter of the
  progress bar, which \<^verbatim>\<open>tqdm\<close> advances once per future yielded.
  \<^verbatim>\<open>future.result()\<close> re-raises an exception that escaped the task.
\<close>

record stream_run =
  live_lines :: "string list"
  progress :: nat

fun consume :: "(nat \<Rightarrow> error + string list) \<Rightarrow> nat list \<Rightarrow> stream_run \<Rightarrow> error + stream_run" where
  "consume result [] st = Inr st"
| "consume result (future # rest) st =
     (case result future of
        Inl e \<Rightarrow> Inl e
      | Inr ls \<Rightarrow>
          consume result rest
            \<lparr>live_lines = live_lines st @ ls, progress = Suc (progress st)\<rparr>)"

text \<open>
  \<^verbatim>\<open>outfile.writelines(live_lines)\<close> writes the strings one after the other, with
  nothing between them.
\<close>

definition writelines :: "string list \<Rightarrow> string" where
  "writelines ls = concat ls"

text \<open>
  What the run leaves behind when it ends normally: the final state of the loop and the
  text of the output file.
\<close>

record finished_run = stream_run +
  outfile :: string

text \<open>
  \<open>world i\<close> is the network as seen by the task submitted for line \<open>i\<close>, and
  \<open>order\<close> the sequence in which \<^verbatim>\<open>as_completed\<close> yields the futures.
  \<^verbatim>\<open>ThreadPoolExecutor\<close> raises ValueError for \<^verbatim>\<open>max_workers <= 0\<close>, before
  anything is submitted. An exception that leaves the loop leaves the function: the
  output file is then not written.
\<close>

definition check_streams ::
  "(nat \<Rightarrow> string \<Rightarrow> int \<Rightarrow> nat \<Rightarrow> outcome) \<Rightarrow> string list \<Rightarrow> int \<Rightarrow> int \<Rightarrow> bool \<Rightarrow> int
     \<Rightarrow> nat list \<Rightarrow> error + finished_run" where
  "check_streams world lines max_workers timeout verbose retries order =
     (if max_workers \<le> 0 then Inl ValueError
      else case consume (\<lambda>i. fst (process_stream (world i) i lines timeout verbose retries))
                  order \<lparr>live_lines = [], progress = 0\<rparr> of
             Inl e \<Rightarrow> Inl e
           | Inr st \<Rightarrow>
               Inr \<lparr>live_lines = live_lines st, progress = progress st,
                    outfile = writelines (live_lines st)\<rparr>)"

subsection \<open>The lines of a text file\<close>



subsection \<open>Notions used in the statements\<close>





section \<open>Auxiliary facts\<close>

subsection \<open>The retry loop\<close>

lemma range_py_nonpos: "k \<le> 0 \<Longrightarrow> range_py k = []"
  by (simp add: range_py_def)

lemma length_range_py: "length (range_py k) = nat k"
  by (simp add: range_py_def)

lemma retry_loop_all_fail:
  assumes "\<forall>k. \<exists>e. head k = RequestException e"
  shows "verdict (retry_loop head url retries atts n out) = Inr False \<and>
         calls (retry_loop head url retries atts n out) = n + length atts"
  using assms
proof (induction atts arbitrary: n out)
  case Nil
  then show ?case by simp
next
  case (Cons a atts)
  from Cons.prems obtain e where e: "head n = RequestException e" by blast
  show ?case using e Cons.IH [OF Cons.prems] by simp
qed

lemma retry_loop_calls_le:
  "calls (retry_loop head url retries atts n out) \<le> n + length atts"
proof (induction atts arbitrary: n out)
  case Nil
  then show ?case by simp
next
  case (Cons a atts)
  have "calls (retry_loop head url retries atts (Suc n) out') \<le> Suc n + length atts" for out'
    by (rule Cons.IH)
  then show ?case
    by (cases "head n") auto
qed


lemma shift_witness:
  assumes "head n \<noteq> Response 200" and "\<forall>e. head n \<noteq> OtherException e"
  shows "(\<exists>k. Suc n \<le> k \<and> k < Suc n + m \<and> head k = Response 200 \<and>
              (\<forall>j. Suc n \<le> j \<and> j < k \<longrightarrow> (\<forall>e. head j \<noteq> OtherException e)))
     \<longleftrightarrow> (\<exists>k. n \<le> k \<and> k < n + Suc m \<and> head k = Response 200 \<and>
              (\<forall>j. n \<le> j \<and> j < k \<longrightarrow> (\<forall>e. head j \<noteq> OtherException e)))"
    (is "?L \<longleftrightarrow> ?R")
proof
  assume ?L
  then obtain k where k: "Suc n \<le> k" "k < Suc n + m" "head k = Response 200"
    "\<forall>j. Suc n \<le> j \<and> j < k \<longrightarrow> (\<forall>e. head j \<noteq> OtherException e)" by blast
  have "\<forall>j. n \<le> j \<and> j < k \<longrightarrow> (\<forall>e. head j \<noteq> OtherException e)"
  proof (intro allI impI)
    fix j e assume j: "n \<le> j \<and> j < k"
    show "head j \<noteq> OtherException e"
    proof (cases "j = n")
      case True
      then show ?thesis using assms(2) by simp
    next
      case False
      then have "Suc n \<le> j" using j by simp
      then show ?thesis using k(4) j by blast
    qed
  qed
  with k show ?R by (intro exI [of _ k]) simp
next
  assume ?R
  then obtain k where k: "n \<le> k" "k < n + Suc m" "head k = Response 200"
    "\<forall>j. n \<le> j \<and> j < k \<longrightarrow> (\<forall>e. head j \<noteq> OtherException e)" by blast
  have "k \<noteq> n" using k(3) assms(1) by auto
  then have "Suc n \<le> k" using k(1) by simp
  moreover have "\<forall>j. Suc n \<le> j \<and> j < k \<longrightarrow> (\<forall>e. head j \<noteq> OtherException e)"
    using k(4) by simp
  ultimately show ?L using k by (intro exI [of _ k]) simp
qed

lemma retry_loop_live_iff:
  "verdict (retry_loop head url retries atts n out) = Inr True \<longleftrightarrow>
     (\<exists>k. n \<le> k \<and> k < n + length atts \<and> head k = Response 200 \<and>
          (\<forall>j. n \<le> j \<and> j < k \<longrightarrow> (\<forall>e. head j \<noteq> OtherException e)))"
proof (induction atts arbitrary: n out)
  case Nil
  then show ?case by simp
next
  case (Cons a atts)
  show ?case
  proof (cases "head n")
    case (Response s)
    show ?thesis
    proof (cases "s = 200")
      case True
      have "\<exists>k. n \<le> k \<and> k < n + length (a # atts) \<and> head k = Response 200 \<and>
          (\<forall>j. n \<le> j \<and> j < k \<longrightarrow> (\<forall>e. head j \<noteq> OtherException e))"
        using Response True by (intro exI [of _ n]) auto
      then show ?thesis using Response True by simp
    next
      case False
      have "head n \<noteq> Response 200" "\<forall>e. head n \<noteq> OtherException e"
        using Response False by simp_all
      from shift_witness [of head n "length atts", OF this] show ?thesis
        using Response False Cons.IH [of "Suc n" out] by simp
    qed
  next
    case (RequestException e)
    have "head n \<noteq> Response 200" "\<forall>e. head n \<noteq> OtherException e"
      using RequestException by simp_all
    from shift_witness [of head n "length atts", OF this] show ?thesis
      using RequestException Cons.IH [of "Suc n"] by simp
  next
    case (OtherException e)
    have "\<not> (\<exists>k. n \<le> k \<and> k < n + length (a # atts) \<and> head k = Response 200 \<and>
          (\<forall>j. n \<le> j \<and> j < k \<longrightarrow> (\<forall>e. head j \<noteq> OtherException e)))"
    proof
      assume "\<exists>k. n \<le> k \<and> k < n + length (a # atts) \<and> head k = Response 200 \<and>
          (\<forall>j. n \<le> j \<and> j < k \<longrightarrow> (\<forall>e. head j \<noteq> OtherException e))"
      then obtain k where k: "n \<le> k" "head k = Response 200"
        "\<forall>j. n \<le> j \<and> j < k \<longrightarrow> (\<forall>e. head j \<noteq> OtherException e)" by blast
      have "k \<noteq> n" using k(2) OtherException by auto
      then have "n < k" using k(1) by simp
      then show False using k(3) OtherException by blast
    qed
    then show ?thesis using OtherException by simp
  qed
qed

lemma check_url_all_fail:
  assumes "\<forall>n. \<exists>e. head url timeout n = RequestException e"
  shows "calls (check_url_with_requests head url timeout retries) = nat retries \<and>
         verdict (check_url_with_requests head url timeout retries) = Inr False"
  using retry_loop_all_fail [of "head url timeout" url retries "range_py retries" 0 "[]"] assms
  by (simp add: check_url_with_requests_def length_range_py)

subsection \<open>Indexing, submission and the yield order\<close>




lemma enumerate_filter_indices:
  "map fst (filter (\<lambda>(i, x). Q x) (enumerate 0 xs)) = filter (\<lambda>i. Q (xs ! i)) [0 ..< length xs]"
proof (induction xs rule: rev_induct)
  case Nil
  then show ?case by simp
next
  case (snoc x xs)
  have same: "filter (\<lambda>i. Q ((xs @ [x]) ! i)) [0 ..< length xs] = filter (\<lambda>i. Q (xs ! i)) [0 ..< length xs]"
    by (rule filter_cong) (simp_all add: nth_append)
  show ?case
    using snoc.IH by (simp add: enumerate_append_eq same)
qed

lemma submitted_eq_filter:
  "submitted lines = filter (\<lambda>i. startswith (lines ! i) ''http'') [0 ..< length lines]"
  unfolding submitted_def by (rule enumerate_filter_indices)

lemma set_submitted:
  "i \<in> set (submitted lines) \<longleftrightarrow> i < length lines \<and> startswith (lines ! i) ''http''"
  by (auto simp: submitted_eq_filter)

lemma distinct_submitted: "distinct (submitted lines)"
  by (simp add: submitted_eq_filter)

lemma sorted_submitted: "sorted (submitted lines)"
  by (simp add: submitted_eq_filter sorted_wrt_filter)

lemma length_submitted:
  "length (submitted lines) = length (filter (\<lambda>line. startswith line ''http'') lines)"
proof -
  let ?Q = "\<lambda>line. startswith line ''http''"
  have "filter ?Q lines = filter ?Q (map ((!) lines) [0 ..< length lines])"
    by (simp add: map_nth)
  also have "\<dots> = map ((!) lines) (filter (?Q \<circ> (!) lines) [0 ..< length lines])"
    by (rule filter_map)
  finally have "length (filter ?Q lines) = length (filter (?Q \<circ> (!) lines) [0 ..< length lines])"
    by simp
  then show ?thesis by (simp add: submitted_eq_filter comp_def)
qed















lemma startswith_strip:
  assumes "startswith s ''http''"
  shows "startswith (strip s) ''http''"
proof -
  from assms obtain t where s: "s = ''http'' @ t"
    by (auto simp: startswith_def prefix_def)
  have front: "dropWhile isspace s = s"
    by (simp add: s isspace_def)
  have "\<exists>ys. dropWhile isspace (rev t @ ''ptth'') = ys @ ''ptth''"
  proof (cases "\<forall>c \<in> set (rev t). isspace c")
    case True
    then have "dropWhile isspace (rev t @ ''ptth'') = dropWhile isspace ''ptth''"
      by (intro dropWhile_append2) blast
    also have "\<dots> = [] @ ''ptth''" by (simp add: isspace_def)
    finally show ?thesis by blast
  next
    case False
    then obtain c where "c \<in> set (rev t)" "\<not> isspace c" by blast
    then have "dropWhile isspace (rev t @ ''ptth'') = dropWhile isspace (rev t) @ ''ptth''"
      by (rule dropWhile_append1)
    then show ?thesis by blast
  qed
  then obtain ys where "dropWhile isspace (rev s) = ys @ ''ptth''"
    by (auto simp: s)
  then have "strip s = ''http'' @ rev ys"
    by (simp add: strip_def front)
  then show ?thesis by (simp add: startswith_def)
qed

subsection \<open>The written file, and the first attempt\<close>






lemma check_url_first_200:
  assumes "0 < retries" and "head url timeout 0 = Response 200"
  shows "check_url_with_requests head url timeout retries =
           \<lparr>verdict = Inr True, calls = 1, printed = []\<rparr>"
proof -
  have "range_py retries = 0 # [1 ..< nat retries]"
    using assms(1) by (simp add: range_py_def upt_rec)
  then show ?thesis
    using assms(2) by (simp add: check_url_with_requests_def)
qed


section \<open>Properties of the prober\<close>

text \<open>
  C10. With \<^verbatim>\<open>retries = 0\<close> the loop body never runs: no request is issued, and the
  call returns False whatever the network would have answered.
\<close>

theorem check_url_zero_retries:
  "check_url_with_requests head url timeout 0 =
     \<lparr>verdict = Inr False, calls = 0, printed = []\<rparr>"
  by (simp add: check_url_with_requests_def range_py_def)

text \<open>
  C2. A URL whose every attempt fails at the transport level, probed with the default
  \<^verbatim>\<open>retries = 3\<close>: the loop runs over \<^verbatim>\<open>range(3)\<close>, so
  \<^verbatim>\<open>requests.head\<close> is called three times (not four) before the call returns
  False. In general the number of calls is \<open>nat retries\<close>
  (lemma \<open>check_url_all_fail\<close>).
\<close>

theorem check_url_all_fail_default_retries:
  "calls (check_url_with_requests (\<lambda>_ _ _. RequestException ''Connection refused'')
            ''http://dead.example'' 5 3) = 3 \<and>
   verdict (check_url_with_requests (\<lambda>_ _ _. RequestException ''Connection refused'')
            ''http://dead.example'' 5 3) = Inr False"
  by (simp add: check_url_with_requests_def range_py_def upt_rec)




text \<open>
  C5. A call that makes a single attempt returns True exactly when that attempt is
  answered with status 200; any other status, and any transport failure, is not live.
  More generally the call returns True exactly when one of the attempts it is allowed
  is answered with status 200 and no earlier attempt raised an exception the handler
  does not catch.
\<close>

theorem attempt_live_iff_status_200:
  "(verdict (check_url_with_requests head url timeout 1) = Inr True \<longleftrightarrow>
      head url timeout 0 = Response 200) \<and>
   (verdict (check_url_with_requests head url timeout retries) = Inr True \<longleftrightarrow>
      (\<exists>k < nat retries. head url timeout k = Response 200 \<and>
         (\<forall>j < k. \<forall>e. head url timeout j \<noteq> OtherException e)))"
proof
  show "verdict (check_url_with_requests head url timeout 1) = Inr True \<longleftrightarrow>
      head url timeout 0 = Response 200"
    by (cases "head url timeout 0") (auto simp: check_url_with_requests_def range_py_def)
next
  show "verdict (check_url_with_requests head url timeout retries) = Inr True \<longleftrightarrow>
      (\<exists>k < nat retries. head url timeout k = Response 200 \<and>
         (\<forall>j < k. \<forall>e. head url timeout j \<noteq> OtherException e))"
    using retry_loop_live_iff [of "head url timeout" url retries "range_py retries" 0 "[]"]
    by (simp add: check_url_with_requests_def length_range_py)
qed

theorem attempt_live_iff_status_200_witness:
  "verdict (check_url_with_requests (\<lambda>_ _ _. Response 301) ''http://moved.example'' 5 1) \<noteq> Inr True \<and>
   verdict (check_url_with_requests (\<lambda>_ _ _. Response 200) ''http://live.example'' 5 1) = Inr True"
  using attempt_live_iff_status_200 [of "\<lambda>_ _ _. Response 301" "''http://moved.example''" 5 1]
        attempt_live_iff_status_200 [of "\<lambda>_ _ _. Response 200" "''http://live.example''" 5 1]
  by simp

text \<open>
  C8. A URL that would answer 200 to the first request, probed with
  \<^verbatim>\<open>retries = 0\<close>: \<^verbatim>\<open>range(0)\<close> is empty, so the request is never made and
  the call returns False after zero attempts, not True after one. For
  \<open>0 < retries\<close> the call does return True after exactly one request
  (lemma \<open>check_url_first_200\<close>).
\<close>

theorem first_answer_200_unasked_at_zero_retries:
  "check_url_with_requests (\<lambda>_ _ _. Response 200) ''http://live.example'' 5 0 =
     \<lparr>verdict = Inr False, calls = 0, printed = []\<rparr>"
  by (simp add: check_url_with_requests_def range_py_def)

section \<open>Properties of the entry extraction\<close>

text \<open>
  C6, as stated, fails: a line that starts with a blank has a trimmed text that begins
  with \<^verbatim>\<open>http\<close>, but \<^verbatim>\<open>line.startswith("http")\<close> is tested on the raw
  line, so no task is submitted for it.
\<close>

theorem indented_url_line_not_submitted:
  "startswith (strip '' http://a.example/1\<newline>'') ''http'' \<and>
   submitted [''#EXTINF:-1,A\<newline>'', '' http://a.example/1\<newline>''] = []"
  by (simp add: submitted_def startswith_def strip_def isspace_def)

text \<open>
  C6, amended. A task is submitted for index \<open>i\<close> exactly when the raw line at
  \<open>i\<close> begins with \<^verbatim>\<open>http\<close>; the submitted indices are increasing and without
  repetition, one per such line; and every submitted line also has a trimmed text that
  begins with \<^verbatim>\<open>http\<close>.
\<close>

theorem submitted_iff_raw_prefix:
  "(i \<in> set (submitted lines) \<longleftrightarrow> i < length lines \<and> startswith (lines ! i) ''http'') \<and>
   distinct (submitted lines) \<and> sorted (submitted lines) \<and>
   length (submitted lines) = length (filter (\<lambda>line. startswith line ''http'') lines) \<and>
   (i \<in> set (submitted lines) \<longrightarrow> startswith (strip (lines ! i)) ''http'')"
  using set_submitted [of i lines] distinct_submitted [of lines] sorted_submitted [of lines]
    length_submitted [of lines] startswith_strip [of "lines ! i"]
  by blast

theorem submitted_iff_raw_prefix_witness:
  "1 \<in> set (submitted [''#EXTINF:-1,A\<newline>'', ''http://a.example/1  \<newline>'']) \<and>
   startswith (strip ([''#EXTINF:-1,A\<newline>'', ''http://a.example/1  \<newline>''] ! 1)) ''http''"
proof -
  have "1 \<in> set (submitted [''#EXTINF:-1,A\<newline>'', ''http://a.example/1  \<newline>''])"
    by (simp add: submitted_def startswith_def)
  with submitted_iff_raw_prefix [of 1 "[''#EXTINF:-1,A\<newline>'', ''http://a.example/1  \<newline>'']"]
  show ?thesis by blast
qed

text \<open>
  C7. A live URL line at index 0: \<^verbatim>\<open>lines[index - 1]\<close> is \<^verbatim>\<open>lines[-1]\<close>, the
  last line of the file. The task neither skips the entry nor raises; it returns the
  last line as if it were the metadata line, and \<^verbatim>\<open>check_streams\<close> writes it to
  the output file.
\<close>

theorem url_at_index_0_takes_last_line:
  "fst (process_stream (\<lambda>_ _ _. Response 200) 0
     [''http://a.example/1\<newline>'', ''#EXTINF:-1,B\<newline>'', ''http://b.example/2\<newline>'']
     5 False 3) =
     Inr [''http://b.example/2\<newline>'', ''http://a.example/1\<newline>''] \<and>
   submitted [''http://a.example/1\<newline>'', ''#EXTINF:-1,B\<newline>'', ''http://b.example/2\<newline>'']
     = [0, 2] \<and>
   check_streams (\<lambda>_ _ _ _. Response 200)
     [''http://a.example/1\<newline>'', ''#EXTINF:-1,B\<newline>'', ''http://b.example/2\<newline>'']
     10 5 False 3 [0, 2] =
     Inr \<lparr>live_lines = [''http://b.example/2\<newline>'', ''http://a.example/1\<newline>'',
                        ''#EXTINF:-1,B\<newline>'', ''http://b.example/2\<newline>''],
          progress = 2,
          outfile = ''http://b.example/2\<newline>http://a.example/1\<newline>#EXTINF:-1,B\<newline>http://b.example/2\<newline>''\<rparr>"
  by (simp add: submitted_def startswith_def check_streams_def process_stream_def getitem_def
        strip_def isspace_def check_url_with_requests_def range_py_def upt_rec writelines_def)

section \<open>Properties of check\_streams\<close>










end
